theory Spec2Isabelle
  imports Main
begin

section \<open>The network as the programs see it\<close>

text \<open>
  The four programs of the repository are Go \<open>main\<close> functions that talk to one TCP
  connection each.  A Go \<open>string\<close> and a \<open>[]byte\<close> are sequences of bytes, here
  \<^typ>\<open>string\<close> (a list of 8-bit characters).  Everything the operating system decides
  (whether \<open>Listen\<close>, \<open>Accept\<close>, \<open>Dial\<close>, \<open>Read\<close> and \<open>Write\<close> succeed, which bytes
  arrive and in which segments) is an explicit input of the model; everything the program does
  that can be observed from outside is an entry of its trace.
\<close>

abbreviation nl :: char where
  "nl \<equiv> CHR 0x0A"

datatype neterr = EOF | ConnReset

text \<open>How the incoming byte stream of a connection ends: the read after the last byte reports
  an error (\<open>io.EOF\<close> when the peer has closed), or the peer stays silent and the read never
  returns.\<close>

datatype stream_end = Fails neterr | Silent

record conn =
  remote :: string
  rx :: "string list"
  rx_end :: stream_end
  tx :: string
  tx_fail :: "bool list"

text \<open>\<open>rx\<close> holds the segments in which the peer's bytes arrive, \<open>tx\<close> the bytes delivered to
  the peer so far, and \<open>tx_fail\<close> the fate of the coming calls of \<open>Write\<close> (\<open>True\<close>: the call
  returns an error and delivers nothing; past the end of the list every call succeeds).\<close>

text \<open>The trace of a run: what is printed, and every return of \<open>Accept\<close> (with whether it
  gave a connection), of a read on the connection (with its error), every call of \<open>Write\<close>
  (with its argument) and the deferred \<open>Close\<close> calls.\<close>

datatype event =
    Stdout string
  | EvAccept bool
  | EvRead "neterr option"
  | EvWrite string
  | EvCloseConn
  | EvCloseListener

datatype exit = Returned | Panicked | Hung

datatype accept_result = AcceptErr | AcceptConn conn

record run =
  status :: exit
  trace :: "event list"
  peer :: "conn option"
  waiting :: "accept_result list"

definition conn_Write :: "conn \<Rightarrow> string \<Rightarrow> (nat \<times> neterr option) \<times> conn" where
  "conn_Write c b =
     (if tx_fail c \<noteq> [] \<and> hd (tx_fail c)
      then ((0, Some ConnReset), c\<lparr>tx_fail := tl (tx_fail c)\<rparr>)
      else ((length b, None), c\<lparr>tx := tx c @ b, tx_fail := tl (tx_fail c)\<rparr>))"

subsection \<open>\<open>bufio.Reader\<close>\<close>

text \<open>\<open>bufio.NewReader(conn)\<close> reads the connection through a buffer; \<open>ReadString(delim)\<close>
  returns the bytes up to and including the first \<open>delim\<close>, however they were segmented, or,
  when the stream fails first, the bytes read before the failure together with the error.
  \<open>None\<close> is a call that never returns.\<close>

record reader =
  pending :: string
  at_end :: stream_end

definition NewReader :: "conn \<Rightarrow> reader" where
  "NewReader c = \<lparr>pending = concat (rx c), at_end = rx_end c\<rparr>"

definition ReadString :: "char \<Rightarrow> reader \<Rightarrow> ((string \<times> neterr option) \<times> reader) option" where
  "ReadString delim r =
     (let line = takeWhile (\<lambda>b. b \<noteq> delim) (pending r);
          rest = dropWhile (\<lambda>b. b \<noteq> delim) (pending r)
      in case rest of
           d # rest' \<Rightarrow> Some ((line @ [d], None), r\<lparr>pending := rest'\<rparr>)
         | [] \<Rightarrow> (case at_end r of
                    Fails e \<Rightarrow> Some ((line, Some e), r\<lparr>pending := []\<rparr>)
                  | Silent \<Rightarrow> None))"

section \<open>The echo server (second program of \<open>src/Client/client.go\<close>)\<close>

text \<open>The loop of lines 67 to 74: read a line; on an error leave the loop; otherwise print the
  line and write it back, ignoring what \<open>Write\<close> returns.\<close>

function echo_loop :: "reader \<Rightarrow> conn \<Rightarrow> exit \<times> conn \<times> event list" where
  "echo_loop r c =
     (case ReadString nl r of
        None \<Rightarrow> (Hung, c, [])
      | Some ((msg, err), r') \<Rightarrow>
          (if err \<noteq> None then (Returned, c, [EvRead err])
           else (let (res, c') = conn_Write c msg;
                     (st, c'', tr) = echo_loop r' c'
                 in (st, c'', EvRead err # Stdout (''Received: '' @ msg) # EvWrite msg # tr))))"
  by pat_completeness auto
termination
  apply (relation "measure (\<lambda>(r, c). length (pending r))")
   apply simp
  apply (clarsimp simp: ReadString_def Let_def split: list.splits stream_end.splits)
  subgoal for r c d rest
    using length_dropWhile_le[of "\<lambda>b. b \<noteq> nl" "pending r"] by simp
  done

declare echo_loop.simps [simp del]

record srv_world =
  listen_fails :: bool
  backlog :: "accept_result list"

definition echo_server_main :: "srv_world \<Rightarrow> run" where
  "echo_server_main w =
     (if listen_fails w
      then \<lparr>status = Panicked, trace = [], peer = None, waiting = backlog w\<rparr>
      else (let t0 = [Stdout (''Server listening on 127.0.0.1:5000'' @ [nl])] in
        case backlog w of
          [] \<Rightarrow> \<lparr>status = Hung, trace = t0, peer = None, waiting = []\<rparr>
        | AcceptErr # q \<Rightarrow>
            \<lparr>status = Panicked, trace = t0 @ [EvAccept False, EvCloseListener],
             peer = None, waiting = q\<rparr>
        | AcceptConn c # q \<Rightarrow>
            (let t1 = t0 @ [EvAccept True, Stdout (''Connected by '' @ remote c @ [nl])];
                 (st, c', tr) = echo_loop (NewReader c) c
             in if st = Hung
                then \<lparr>status = Hung, trace = t1 @ tr, peer = Some c', waiting = q\<rparr>
                else \<lparr>status = Returned, trace = t1 @ tr @ [EvCloseConn, EvCloseListener],
                      peer = Some c', waiting = q\<rparr>)))"

section \<open>The echo client (\<open>src/client.go\<close>)\<close>

record cli_world =
  dial_res :: "conn option"

definition echo_client_main :: "cli_world \<Rightarrow> run" where
  "echo_client_main w =
     (case dial_res w of
        None \<Rightarrow> \<lparr>status = Panicked, trace = [], peer = None, waiting = []\<rparr>
      | Some c \<Rightarrow>
          (let msg = ''Hello local server!'' @ [nl];
               (res, c1) = conn_Write c msg
           in case ReadString nl (NewReader c1) of
                None \<Rightarrow> \<lparr>status = Hung, trace = [EvWrite msg], peer = Some c1, waiting = []\<rparr>
              | Some ((resp, err), r') \<Rightarrow>
                  \<lparr>status = Returned,
                   trace = [EvWrite msg, EvRead err, Stdout (''Received: '' @ resp),
                            EvCloseConn],
                   peer = Some c1, waiting = []\<rparr>))"

section \<open>Reading a trace\<close>

fun writes :: "event list \<Rightarrow> string list" where
  "writes [] = []"
| "writes (EvWrite m # es) = m # writes es"
| "writes (e # es) = writes es"

fun prints :: "event list \<Rightarrow> string list" where
  "prints [] = []"
| "prints (Stdout m # es) = m # prints es"
| "prints (e # es) = prints es"

fun echo_event :: "event \<Rightarrow> bool" where
  "echo_event (Stdout m) = True"
| "echo_event (EvWrite m) = True"
| "echo_event (EvRead None) = True"
| "echo_event e = False"


section \<open>Concrete connections\<close>

definition partial_reply_conn :: conn where
  "partial_reply_conn =
     \<lparr>remote = ''127.0.0.1:5000'', rx = [''abc''], rx_end = Fails EOF, tx = [], tx_fail = []\<rparr>"

definition hello_conn :: conn where
  "hello_conn =
     \<lparr>remote = ''127.0.0.1:40000'', rx = [''Hello local server!'' @ [nl]], rx_end = Fails EOF,
      tx = [], tx_fail = []\<rparr>"

definition two_lines_conn :: conn where
  "two_lines_conn =
     \<lparr>remote = ''127.0.0.1:40000'', rx = [''one'' @ [nl] @ ''tw'', ''o'' @ [nl] @ ''thr''],
      rx_end = Fails EOF, tx = [], tx_fail = [True]\<rparr>"


section \<open>Lemmas about the echo flow\<close>

lemma ReadString_line:
  assumes "nl \<notin> set l" and "pending r = l @ nl # rest"
  shows "ReadString nl r = Some ((l @ [nl], None), r\<lparr>pending := rest\<rparr>)"
proof -
  have a: "\<And>x. x \<in> set l \<Longrightarrow> x \<noteq> nl" using assms(1) by blast
  have t: "takeWhile (\<lambda>b. b \<noteq> nl) (l @ nl # rest) = l"
    using takeWhile_append2[of l "\<lambda>b. b \<noteq> nl" "nl # rest"] a by simp
  have d: "dropWhile (\<lambda>b. b \<noteq> nl) (l @ nl # rest) = nl # rest"
    using dropWhile_append2[of l "\<lambda>b. b \<noteq> nl" "nl # rest"] a by simp
  show ?thesis unfolding ReadString_def Let_def assms(2) t d by simp
qed

lemma no_delim_takeWhile:
  assumes "nl \<notin> set s"
  shows "takeWhile (\<lambda>b. b \<noteq> nl) s = s" and "dropWhile (\<lambda>b. b \<noteq> nl) s = []"
proof -
  have a: "\<And>x. x \<in> set s \<Longrightarrow> x \<noteq> nl" using assms by blast
  show "takeWhile (\<lambda>b. b \<noteq> nl) s = s"
    using takeWhile_append2[of s "\<lambda>b. b \<noteq> nl" "[]"] a by simp
  show "dropWhile (\<lambda>b. b \<noteq> nl) s = []"
    using dropWhile_append2[of s "\<lambda>b. b \<noteq> nl" "[]"] a by simp
qed

lemma dropWhile_Nil_no_delim:
  assumes "dropWhile (\<lambda>b. b \<noteq> nl) s = []"
  shows "nl \<notin> set s"
proof
  assume "nl \<in> set s"
  moreover have "\<forall>x\<in>set s. x \<noteq> nl" using assms by (simp only: dropWhile_eq_Nil_conv)
  ultimately show False by blast
qed

lemma ReadString_fail:
  assumes "nl \<notin> set (pending r)" and "at_end r = Fails e"
  shows "ReadString nl r = Some ((pending r, Some e), r\<lparr>pending := []\<rparr>)"
  unfolding ReadString_def Let_def no_delim_takeWhile[OF assms(1)] using assms(2) by simp

lemma ReadString_silent:
  assumes "nl \<notin> set (pending r)" and "at_end r = Silent"
  shows "ReadString nl r = None"
  unfolding ReadString_def Let_def no_delim_takeWhile[OF assms(1)] using assms(2) by simp

lemma ReadString_okD:
  assumes "ReadString nl r = Some ((msg, None), r')"
  shows "\<exists>l. msg = l @ [nl] \<and> nl \<notin> set l \<and> pending r = msg @ pending r' \<and> at_end r' = at_end r"
proof (cases "dropWhile (\<lambda>b. b \<noteq> nl) (pending r)")
  case Nil
  with assms show ?thesis
    by (simp add: ReadString_def Let_def split: stream_end.splits)
next
  case (Cons d rest')
  let ?l = "takeWhile (\<lambda>b. b \<noteq> nl) (pending r)"
  from assms Cons have m: "msg = ?l @ [d]" and r': "r' = r\<lparr>pending := rest'\<rparr>"
    by (simp_all add: ReadString_def Let_def)
  have "\<not> (hd (dropWhile (\<lambda>b. b \<noteq> nl) (pending r)) \<noteq> nl)"
    by (rule hd_dropWhile) (simp add: Cons)
  with Cons have d: "d = nl" by simp
  have n: "nl \<notin> set ?l"
  proof
    assume "nl \<in> set ?l"
    from set_takeWhileD[OF this] show False by simp
  qed
  have "pending r = ?l @ dropWhile (\<lambda>b. b \<noteq> nl) (pending r)" by simp
  with Cons have p: "pending r = ?l @ d # rest'" by simp
  show ?thesis using m r' d n p by auto
qed

lemma ReadString_errD:
  assumes "ReadString nl r = Some ((msg, Some e), r')"
  shows "msg = pending r \<and> nl \<notin> set msg \<and> at_end r = Fails e"
proof (cases "dropWhile (\<lambda>b. b \<noteq> nl) (pending r)")
  case Nil
  have n: "nl \<notin> set (pending r)" by (rule dropWhile_Nil_no_delim[OF Nil])
  from assms Nil have "msg = takeWhile (\<lambda>b. b \<noteq> nl) (pending r)" and e: "at_end r = Fails e"
    by (auto simp: ReadString_def Let_def split: stream_end.splits)
  then show ?thesis using n no_delim_takeWhile(1)[OF n] by simp
next
  case (Cons d rest')
  with assms show ?thesis by (simp add: ReadString_def Let_def)
qed

lemma ReadString_NoneD:
  assumes "ReadString nl r = None"
  shows "nl \<notin> set (pending r) \<and> at_end r = Silent"
proof (cases "dropWhile (\<lambda>b. b \<noteq> nl) (pending r)")
  case Nil
  have n: "nl \<notin> set (pending r)" by (rule dropWhile_Nil_no_delim[OF Nil])
  from assms Nil have "at_end r = Silent"
    by (auto simp: ReadString_def Let_def split: stream_end.splits)
  with n show ?thesis by simp
next
  case (Cons d rest')
  with assms show ?thesis by (simp add: ReadString_def Let_def)
qed

lemma echo_loop_hung:
  "ReadString nl r = None \<Longrightarrow> echo_loop r c = (Hung, c, [])"
  by (subst echo_loop.simps) simp

lemma echo_loop_break:
  "ReadString nl r = Some ((msg, Some e), r') \<Longrightarrow> echo_loop r c = (Returned, c, [EvRead (Some e)])"
  by (subst echo_loop.simps) simp

lemma echo_loop_again:
  "ReadString nl r = Some ((msg, None), r') \<Longrightarrow> echo_loop r' (snd (conn_Write c msg)) = (st, c'', tr) \<Longrightarrow>
   echo_loop r c = (st, c'', EvRead None # Stdout (''Received: '' @ msg) # EvWrite msg # tr)"
  by (subst echo_loop.simps) (simp add: split_def)

lemma echo_loop_cases:
  obtains (hung) "ReadString nl r = None" "echo_loop r c = (Hung, c, [])"
  | (break) msg e r' where "ReadString nl r = Some ((msg, Some e), r')"
      "echo_loop r c = (Returned, c, [EvRead (Some e)])"
  | (again) msg r' st c'' tr where "ReadString nl r = Some ((msg, None), r')"
      "echo_loop r' (snd (conn_Write c msg)) = (st, c'', tr)"
      "echo_loop r c = (st, c'', EvRead None # Stdout (''Received: '' @ msg) # EvWrite msg # tr)"
proof (cases "ReadString nl r")
  case None
  then show ?thesis using hung echo_loop_hung by blast
next
  case (Some x)
  obtain msg err r' where x: "x = ((msg, err), r')" by (metis prod.collapse)
  show ?thesis
  proof (cases err)
    case None
    obtain st c'' tr where l: "echo_loop r' (snd (conn_Write c msg)) = (st, c'', tr)"
      by (metis prod.collapse)
    from Some x None have "ReadString nl r = Some ((msg, None), r')" by simp
    then show ?thesis using again l echo_loop_again by blast
  next
    case (Some e)
    with \<open>ReadString nl r = Some x\<close> x have "ReadString nl r = Some ((msg, Some e), r')" by simp
    then show ?thesis using break echo_loop_break by blast
  qed
qed

lemma echo_loop_induct [consumes 1, case_names hung break again]:
  assumes "echo_loop r c = res"
    and "\<And>r c. ReadString nl r = None \<Longrightarrow> P r c (Hung, c, [])"
    and "\<And>r c msg e r'. ReadString nl r = Some ((msg, Some e), r') \<Longrightarrow>
           P r c (Returned, c, [EvRead (Some e)])"
    and "\<And>r c msg r' st c'' tr. ReadString nl r = Some ((msg, None), r') \<Longrightarrow>
           echo_loop r' (snd (conn_Write c msg)) = (st, c'', tr) \<Longrightarrow>
           P r' (snd (conn_Write c msg)) (st, c'', tr) \<Longrightarrow>
           P r c (st, c'', EvRead None # Stdout (''Received: '' @ msg) # EvWrite msg # tr)"
  shows "P r c res"
  using assms(1)
proof (induction r c arbitrary: res rule: echo_loop.induct)
  case (1 r c)
  show ?case
  proof (cases r c rule: echo_loop_cases)
    case hung
    with "1.prems" assms(2)[of r c] show ?thesis by simp
  next
    case (break msg e r')
    with "1.prems" assms(3)[of r msg e r' c] show ?thesis by simp
  next
    case (again msg r' st c'' tr)
    have "P r' (snd (conn_Write c msg)) (st, c'', tr)"
      by (rule "1.IH"[OF again(1) refl refl _ refl, of "fst (conn_Write c msg)"])
         (simp_all add: again(2))
    from assms(4)[OF again(1) again(2) this] again(3) "1.prems" show ?thesis by simp
  qed
qed

lemma echo_loop_lines:
  "echo_loop r c = res \<Longrightarrow>
     (\<exists>tail. pending r = concat (writes (snd (snd res))) @ tail \<and> nl \<notin> set tail) \<and>
     (\<forall>m\<in>set (writes (snd (snd res))). m \<noteq> [] \<and> last m = nl \<and> nl \<notin> set (butlast m)) \<and>
     prints (snd (snd res)) = map (\<lambda>m. ''Received: '' @ m) (writes (snd (snd res)))"
proof (induction rule: echo_loop_induct)
  case (hung r c)
  then show ?case using ReadString_NoneD by simp
next
  case (break r c msg e r')
  then show ?case using ReadString_errD by simp
next
  case (again r c msg r' st c'' tr)
  from ReadString_okD[OF again(1)] obtain l where
    m: "msg = l @ [nl]" "nl \<notin> set l" "pending r = msg @ pending r'" by blast
  from again(3) obtain tail where t: "pending r' = concat (writes tr) @ tail" "nl \<notin> set tail"
    by auto
  have "pending r = concat (writes (EvRead None # Stdout (''Received: '' @ msg) # EvWrite msg # tr)) @ tail"
    using m(3) t(1) by simp
  with t(2) again(3) m(1,2) show ?case by auto
qed

lemma echo_loop_status:
  "echo_loop r c = res \<Longrightarrow> fst res = (case at_end r of Fails e \<Rightarrow> Returned | Silent \<Rightarrow> Hung)"
proof (induction rule: echo_loop_induct)
  case (hung r c)
  then show ?case using ReadString_NoneD by simp
next
  case (break r c msg e r')
  then show ?case using ReadString_errD[of r msg e r'] by simp
next
  case (again r c msg r' st c'' tr)
  then show ?case using ReadString_okD[of r msg r'] by auto
qed


lemma echo_loop_shape:
  "echo_loop r c = res \<Longrightarrow>
     (fst res = Returned \<longrightarrow>
        (\<exists>es e. at_end r = Fails e \<and> snd (snd res) = es @ [EvRead (Some e)] \<and> list_all echo_event es)) \<and>
     (fst res = Hung \<longrightarrow> list_all echo_event (snd (snd res)))"
proof (induction rule: echo_loop_induct)
  case (hung r c)
  then show ?case by simp
next
  case (break r c msg e r')
  then show ?case using ReadString_errD[of r msg e r'] by simp
next
  case (again r c msg r' st c'' tr)
  have e: "at_end r' = at_end r" using ReadString_okD[OF again(1)] by blast
  show ?case
  proof (cases st)
    case Returned
    with again(3) e obtain es e' where
      "at_end r = Fails e'" "tr = es @ [EvRead (Some e')]" "list_all echo_event es" by auto
    then have "at_end r = Fails e' \<and>
       EvRead None # Stdout (''Received: '' @ msg) # EvWrite msg # tr =
       (EvRead None # Stdout (''Received: '' @ msg) # EvWrite msg # es) @ [EvRead (Some e')] \<and>
       list_all echo_event (EvRead None # Stdout (''Received: '' @ msg) # EvWrite msg # es)"
      by simp
    then show ?thesis using Returned by (simp del: append_Cons)
  next
    case Panicked
    then show ?thesis by simp
  next
    case Hung
    with again(3) show ?thesis by simp
  qed
qed

lemma echo_loop_any_conn:
  "echo_loop r c = res \<Longrightarrow>
     (\<forall>c2. fst (echo_loop r c2) = fst res \<and> snd (snd (echo_loop r c2)) = snd (snd res))"
proof (induction rule: echo_loop_induct)
  case (hung r c)
  then show ?case by (simp add: echo_loop_hung)
next
  case (break r c msg e r')
  then show ?case by (simp add: echo_loop_break)
next
  case (again r c msg r' st c'' tr)
  show ?case
  proof
    fix c2
    obtain st2 c2' tr2 where l: "echo_loop r' (snd (conn_Write c2 msg)) = (st2, c2', tr2)"
      by (metis prod.collapse)
    from again(3) l have "st2 = st" "tr2 = tr"
      by (metis fst_conv, metis snd_conv)
    with echo_loop_again[OF again(1) l]
    show "fst (echo_loop r c2) =
            fst (st, c'', EvRead None # Stdout (''Received: '' @ msg) # EvWrite msg # tr) \<and>
          snd (snd (echo_loop r c2)) =
            snd (snd (st, c'', EvRead None # Stdout (''Received: '' @ msg) # EvWrite msg # tr))"
      by simp
  qed
qed

lemma echo_loop_tx:
  "echo_loop r c = res \<Longrightarrow>
     (tx_fail c = [] \<longrightarrow> tx (fst (snd res)) = tx c @ concat (writes (snd (snd res))) \<and>
        tx_fail (fst (snd res)) = [])"
proof (induction rule: echo_loop_induct)
  case (hung r c)
  then show ?case by simp
next
  case (break r c msg e r')
  then show ?case by simp
next
  case (again r c msg r' st c'' tr)
  then show ?case by (simp add: conn_Write_def)
qed

lemma lines_split_unique:
  assumes "a @ t = b @ u" and "nl \<notin> set t" and "nl \<notin> set u"
    and "a = [] \<or> last a = nl" and "b = [] \<or> last b = nl"
  shows "a = b \<and> t = u"
proof -
  from assms(1) obtain us where "(a = b @ us \<and> us @ t = u) \<or> (a @ us = b \<and> t = us @ u)"
    by (auto simp: append_eq_append_conv2)
  then show ?thesis
  proof
    assume h: "a = b @ us \<and> us @ t = u"
    show ?thesis
    proof (cases "us = []")
      case True
      with h show ?thesis by simp
    next
      case False
      with h have "a \<noteq> []" "last a = last us" by simp_all
      with assms(4) False have "nl \<in> set us" by (metis last_in_set)
      with h assms(3) show ?thesis by auto
    qed
  next
    assume h: "a @ us = b \<and> t = us @ u"
    show ?thesis
    proof (cases "us = []")
      case True
      with h show ?thesis by simp
    next
      case False
      with h have "b \<noteq> []" "last b = last us" by auto
      with assms(5) False have "nl \<in> set us" by (metis last_in_set)
      with h assms(2) show ?thesis by auto
    qed
  qed
qed

lemma concat_lines_last:
  "\<forall>m\<in>set ws. m \<noteq> [] \<and> last m = nl \<Longrightarrow> concat ws = [] \<or> last (concat ws) = nl"
  by (induction ws rule: rev_induct) auto

lemma echo_loop_body:
  assumes "echo_loop r c = (st, c', tr)" and "pending r = body @ part"
    and "body = [] \<or> last body = nl" and "nl \<notin> set part"
  shows "concat (writes tr) = body"
proof -
  from echo_loop_lines[OF assms(1)] obtain tail where
    t: "pending r = concat (writes tr) @ tail" "nl \<notin> set tail"
    and w: "\<forall>m\<in>set (writes tr). m \<noteq> [] \<and> last m = nl" by auto
  from concat_lines_last[OF w] have "concat (writes tr) = [] \<or> last (concat (writes tr)) = nl" .
  with lines_split_unique[of "concat (writes tr)" tail body part] t assms show ?thesis by simp
qed

lemma writes_append: "writes (a @ b) = writes a @ writes b"
  by (induction a rule: writes.induct) simp_all

lemma prints_append: "prints (a @ b) = prints a @ prints b"
  by (induction a rule: prints.induct) simp_all

lemma echo_server_main_conn:
  assumes "listen_fails w = False" and "backlog w = AcceptConn c # q"
    and "echo_loop (NewReader c) c = (st, c', tr)"
  shows "echo_server_main w =
     (if st = Hung
      then \<lparr>status = Hung,
            trace = [Stdout (''Server listening on 127.0.0.1:5000'' @ [nl]), EvAccept True,
                     Stdout (''Connected by '' @ remote c @ [nl])] @ tr,
            peer = Some c', waiting = q\<rparr>
      else \<lparr>status = Returned,
            trace = [Stdout (''Server listening on 127.0.0.1:5000'' @ [nl]), EvAccept True,
                     Stdout (''Connected by '' @ remote c @ [nl])] @ tr @
                    [EvCloseConn, EvCloseListener],
            peer = Some c', waiting = q\<rparr>)"
  using assms by (simp add: echo_server_main_def)

lemma conn_Write_rx: "rx (snd (conn_Write c b)) = rx c \<and> rx_end (snd (conn_Write c b)) = rx_end c"
  by (simp add: conn_Write_def)

lemma echo_client_main_conn:
  assumes "dial_res w = Some c"
    and "ReadString nl (NewReader c) = Some ((resp, err), r')"
  shows "echo_client_main w =
     \<lparr>status = Returned,
      trace = [EvWrite (''Hello local server!'' @ [nl]), EvRead err,
               Stdout (''Received: '' @ resp), EvCloseConn],
      peer = Some (snd (conn_Write c (''Hello local server!'' @ [nl]))), waiting = []\<rparr>"
proof -
  have "NewReader (snd (conn_Write c (''Hello local server!'' @ [nl]))) = NewReader c"
    by (simp add: NewReader_def conn_Write_def)
  with assms show ?thesis
    by (simp add: echo_client_main_def split_def Let_def)
qed


lemma two_lines_loop:
  "echo_loop (NewReader two_lines_conn) two_lines_conn =
      (Returned, two_lines_conn\<lparr>tx := ''two'' @ [nl], tx_fail := []\<rparr>,
       [EvRead None, Stdout (''Received: one'' @ [nl]), EvWrite (''one'' @ [nl]),
        EvRead None, Stdout (''Received: two'' @ [nl]), EvWrite (''two'' @ [nl]),
        EvRead (Some EOF)])"
  by (simp add: echo_loop.simps two_lines_conn_def NewReader_def ReadString_def conn_Write_def)

lemma two_lines_run:
  "echo_server_main \<lparr>listen_fails = False, backlog = AcceptConn two_lines_conn # q\<rparr> =
     \<lparr>status = Returned,
      trace = [Stdout (''Server listening on 127.0.0.1:5000'' @ [nl]), EvAccept True,
        Stdout (''Connected by 127.0.0.1:40000'' @ [nl]),
        EvRead None, Stdout (''Received: one'' @ [nl]), EvWrite (''one'' @ [nl]),
        EvRead None, Stdout (''Received: two'' @ [nl]), EvWrite (''two'' @ [nl]),
        EvRead (Some EOF), EvCloseConn, EvCloseListener],
      peer = Some (two_lines_conn\<lparr>tx := ''two'' @ [nl], tx_fail := []\<rparr>), waiting = q\<rparr>"
  using echo_server_main_conn[OF _ _ two_lines_loop,
      of "\<lparr>listen_fails = False, backlog = AcceptConn two_lines_conn # q\<rparr>" q]
  by (simp add: two_lines_conn_def)

section \<open>The claims about the echo flow\<close>

text \<open>
  Claim C2.  A line \<open>L\<close> without a newline, sent as \<open>L + "\n"\<close> to the echo server (in any
  segmentation, with a write that succeeds), is written back as exactly \<open>L + "\n"\<close>, trailing
  newline included, and a client whose incoming stream is what the server delivered reads and
  prints exactly \<open>L + "\n"\<close>.
\<close>

theorem echo_line_roundtrip:
  assumes "nl \<notin> set L" and "concat (rx c) = L @ [nl]" and "tx c = []" and "tx_fail c = []"
    and "listen_fails w = False" and "backlog w = AcceptConn c # q"
  shows "\<exists>c'. peer (echo_server_main w) = Some c' \<and> tx c' = L @ [nl] \<and>
           writes (trace (echo_server_main w)) = [L @ [nl]] \<and>
           (\<forall>d. concat (rx d) = tx c' \<longrightarrow>
              prints (trace (echo_client_main \<lparr>dial_res = Some d\<rparr>)) = [''Received: '' @ L @ [nl]])"
proof -
  let ?r = "NewReader c"
  let ?c1 = "snd (conn_Write c (L @ [nl]))"
  have p: "pending ?r = L @ nl # []" using assms(2) by (simp add: NewReader_def)
  have rd: "ReadString nl ?r = Some ((L @ [nl], None), ?r\<lparr>pending := []\<rparr>)"
    by (rule ReadString_line[OF assms(1) p])
  have tx1: "tx ?c1 = L @ [nl]" using assms(3,4) by (simp add: conn_Write_def)
  obtain st tr where l2: "echo_loop (?r\<lparr>pending := []\<rparr>) ?c1 = (st, ?c1, tr)" and w2: "writes tr = []"
  proof (cases "rx_end c")
    case (Fails e)
    have "ReadString nl (?r\<lparr>pending := []\<rparr>) = Some (([], Some e), ?r\<lparr>pending := []\<rparr>)"
      using ReadString_fail[of "?r\<lparr>pending := []\<rparr>" e] Fails by (simp add: NewReader_def)
    from echo_loop_break[OF this] that show ?thesis by simp
  next
    case Silent
    have "ReadString nl (?r\<lparr>pending := []\<rparr>) = None"
      using ReadString_silent[of "?r\<lparr>pending := []\<rparr>"] Silent by (simp add: NewReader_def)
    from echo_loop_hung[OF this] that show ?thesis by simp
  qed
  have l: "echo_loop ?r c =
      (st, ?c1, EvRead None # Stdout (''Received: '' @ L @ [nl]) # EvWrite (L @ [nl]) # tr)"
    using echo_loop_again[OF rd l2] by simp
  have m: "peer (echo_server_main w) = Some ?c1 \<and>
           writes (trace (echo_server_main w)) = [L @ [nl]]"
    using echo_server_main_conn[OF assms(5,6) l] w2 by (simp add: writes_append)
  have cl: "prints (trace (echo_client_main \<lparr>dial_res = Some d\<rparr>)) = [''Received: '' @ L @ [nl]]"
    if d: "concat (rx d) = L @ [nl]" for d
  proof -
    have "pending (NewReader d) = L @ nl # []" using d by (simp add: NewReader_def)
    from ReadString_line[OF assms(1) this]
    have "ReadString nl (NewReader d) = Some ((L @ [nl], None), (NewReader d)\<lparr>pending := []\<rparr>)" .
    from echo_client_main_conn[OF _ this, of "\<lparr>dial_res = Some d\<rparr>"] show ?thesis by simp
  qed
  show ?thesis using m tx1 cl by simp
qed

theorem echo_line_roundtrip_witness:
  "nl \<notin> set ''Hello local server!'' \<and>
   (\<exists>c'. peer (echo_server_main \<lparr>listen_fails = False, backlog = [AcceptConn hello_conn]\<rparr>) = Some c' \<and>
      tx c' = ''Hello local server!'' @ [nl] \<and>
      writes (trace (echo_server_main \<lparr>listen_fails = False, backlog = [AcceptConn hello_conn]\<rparr>)) =
        [''Hello local server!'' @ [nl]] \<and>
      (\<forall>d. concat (rx d) = tx c' \<longrightarrow>
         prints (trace (echo_client_main \<lparr>dial_res = Some d\<rparr>)) =
           [''Received: '' @ ''Hello local server!'' @ [nl]]))"
  using echo_line_roundtrip[of "''Hello local server!''" hello_conn
      "\<lparr>listen_fails = False, backlog = [AcceptConn hello_conn]\<rparr>" "[]"]
  by (simp add: hello_conn_def)

text \<open>
  Claim C3, as stated, says that a failed line-read leaves the client with the empty response.
  \<open>ReadString\<close> returns the bytes read before the failure: when the peer sends \<open>abc\<close> and
  closes, the read fails with \<open>io.EOF\<close> and the client prints \<open>Received: abc\<close>.
\<close>

theorem echo_client_partial_reply:
  "status (echo_client_main \<lparr>dial_res = Some partial_reply_conn\<rparr>) = Returned \<and>
   trace (echo_client_main \<lparr>dial_res = Some partial_reply_conn\<rparr>) =
     [EvWrite (''Hello local server!'' @ [nl]), EvRead (Some EOF), Stdout ''Received: abc'',
      EvCloseConn]"
  by (simp add: echo_client_main_def partial_reply_conn_def conn_Write_def NewReader_def
      ReadString_def Let_def)

text \<open>
  Claim C3, amended.  When the single line-read of the echo client fails, the response is the
  bytes that arrived before the failure (the empty string exactly when none arrived); the error
  is discarded, the response is printed, and the client returns normally, closing the
  connection.
\<close>

theorem echo_client_read_failure:
  assumes "dial_res w = Some c" and "rx_end c = Fails e" and "nl \<notin> set (concat (rx c))"
  shows "echo_client_main w =
     \<lparr>status = Returned,
      trace = [EvWrite (''Hello local server!'' @ [nl]), EvRead (Some e),
               Stdout (''Received: '' @ concat (rx c)), EvCloseConn],
      peer = Some (snd (conn_Write c (''Hello local server!'' @ [nl]))), waiting = []\<rparr>"
proof -
  have "ReadString nl (NewReader c) = Some ((concat (rx c), Some e), (NewReader c)\<lparr>pending := []\<rparr>)"
    using ReadString_fail[of "NewReader c" e] assms(2,3) by (simp add: NewReader_def)
  from echo_client_main_conn[OF assms(1) this] show ?thesis .
qed

theorem echo_client_read_failure_witness:
  "echo_client_main \<lparr>dial_res = Some partial_reply_conn\<rparr> =
     \<lparr>status = Returned,
      trace = [EvWrite (''Hello local server!'' @ [nl]), EvRead (Some EOF),
               Stdout ''Received: abc'', EvCloseConn],
      peer = Some (partial_reply_conn\<lparr>tx := ''Hello local server!'' @ [nl]\<rparr>), waiting = []\<rparr>"
  using echo_client_read_failure[of "\<lparr>dial_res = Some partial_reply_conn\<rparr>" partial_reply_conn EOF]
  by (simp add: partial_reply_conn_def conn_Write_def)

text \<open>
  Claim C8.  When the incoming stream of the accepted connection ends in a read failure (\<open>io.EOF\<close>
  included, with or without an unterminated last line), the echo server returns without a
  panic: after the accept its trace holds only successful line-reads, prints and echo writes,
  then the failing read, then the deferred close of the connection and of the listener; there
  is no further accept and the next pending client stays unserved.
\<close>

theorem echo_server_returns_on_read_failure:
  assumes "listen_fails w = False" and "backlog w = AcceptConn c # q" and "rx_end c = Fails e"
  shows "status (echo_server_main w) = Returned \<and> waiting (echo_server_main w) = q \<and>
         (\<exists>es. trace (echo_server_main w) =
                 [Stdout (''Server listening on 127.0.0.1:5000'' @ [nl]), EvAccept True,
                  Stdout (''Connected by '' @ remote c @ [nl])] @ es @
                 [EvRead (Some e), EvCloseConn, EvCloseListener] \<and>
               list_all echo_event es)"
proof -
  obtain st c' tr where l: "echo_loop (NewReader c) c = (st, c', tr)"
    by (metis prod.collapse)
  have e: "at_end (NewReader c) = Fails e" using assms(3) by (simp add: NewReader_def)
  from echo_loop_status[OF l] e have st: "st = Returned" by simp
  from echo_loop_shape[OF l] st e obtain es where
    es: "tr = es @ [EvRead (Some e)]" "list_all echo_event es" by auto
  from echo_server_main_conn[OF assms(1,2) l] st es show ?thesis by simp
qed

theorem echo_server_returns_on_read_failure_witness:
  "status (echo_server_main \<lparr>listen_fails = False, backlog = [AcceptConn two_lines_conn, AcceptErr]\<rparr>) = Returned \<and>
   waiting (echo_server_main \<lparr>listen_fails = False, backlog = [AcceptConn two_lines_conn, AcceptErr]\<rparr>) = [AcceptErr] \<and>
   (\<exists>es. trace (echo_server_main \<lparr>listen_fails = False, backlog = [AcceptConn two_lines_conn, AcceptErr]\<rparr>) =
           [Stdout (''Server listening on 127.0.0.1:5000'' @ [nl]), EvAccept True,
            Stdout (''Connected by '' @ ''127.0.0.1:40000'' @ [nl])] @ es @
           [EvRead (Some EOF), EvCloseConn, EvCloseListener] \<and>
         list_all echo_event es)"
  using echo_server_returns_on_read_failure[of
      "\<lparr>listen_fails = False, backlog = [AcceptConn two_lines_conn, AcceptErr]\<rparr>"
      two_lines_conn "[AcceptErr]" EOF]
  by (simp add: two_lines_conn_def)

text \<open>
  Claim C9.  The result of the echo write is ignored: whatever the outcomes of the \<open>Write\<close>
  calls, the echo server's exit status and its whole trace (line-reads with their results,
  prints, write calls, closes) are the same; only the result of the line-read decides whether
  the loop goes on.
\<close>

theorem echo_write_failure_ignored:
  "status (echo_server_main \<lparr>listen_fails = False, backlog = AcceptConn (c\<lparr>tx_fail := f\<rparr>) # q\<rparr>) =
   status (echo_server_main \<lparr>listen_fails = False, backlog = AcceptConn (c\<lparr>tx_fail := g\<rparr>) # q\<rparr>) \<and>
   trace (echo_server_main \<lparr>listen_fails = False, backlog = AcceptConn (c\<lparr>tx_fail := f\<rparr>) # q\<rparr>) =
   trace (echo_server_main \<lparr>listen_fails = False, backlog = AcceptConn (c\<lparr>tx_fail := g\<rparr>) # q\<rparr>)"
proof -
  let ?cf = "c\<lparr>tx_fail := f\<rparr>" and ?cg = "c\<lparr>tx_fail := g\<rparr>"
  obtain st c' tr where lf: "echo_loop (NewReader ?cf) ?cf = (st, c', tr)"
    by (metis prod.collapse)
  obtain st2 c2 tr2 where lg: "echo_loop (NewReader ?cg) ?cg = (st2, c2, tr2)"
    by (metis prod.collapse)
  have r: "NewReader ?cg = NewReader ?cf" by (simp add: NewReader_def)
  from echo_loop_any_conn[OF lf] lg r have eq: "st2 = st" "tr2 = tr"
    by (metis fst_conv, metis snd_conv)
  have "echo_server_main \<lparr>listen_fails = False, backlog = AcceptConn ?cf # q\<rparr> =
        (echo_server_main \<lparr>listen_fails = False, backlog = AcceptConn ?cg # q\<rparr>)\<lparr>peer := Some c'\<rparr>"
    using echo_server_main_conn[OF _ _ lf, of "\<lparr>listen_fails = False, backlog = AcceptConn ?cf # q\<rparr>" q]
      echo_server_main_conn[OF _ _ lg, of "\<lparr>listen_fails = False, backlog = AcceptConn ?cg # q\<rparr>" q] eq
    by simp
  then show ?thesis by simp
qed

theorem echo_write_failure_ignored_witness:
  "trace (echo_server_main \<lparr>listen_fails = False, backlog = [AcceptConn two_lines_conn]\<rparr>) =
     [Stdout (''Server listening on 127.0.0.1:5000'' @ [nl]), EvAccept True,
      Stdout (''Connected by 127.0.0.1:40000'' @ [nl]),
      EvRead None, Stdout (''Received: one'' @ [nl]), EvWrite (''one'' @ [nl]),
      EvRead None, Stdout (''Received: two'' @ [nl]), EvWrite (''two'' @ [nl]),
      EvRead (Some EOF), EvCloseConn, EvCloseListener] \<and>
   map_option tx (peer (echo_server_main \<lparr>listen_fails = False, backlog = [AcceptConn two_lines_conn]\<rparr>)) =
     Some (''two'' @ [nl]) \<and>
   trace (echo_server_main \<lparr>listen_fails = False, backlog = [AcceptConn two_lines_conn]\<rparr>) =
   trace (echo_server_main \<lparr>listen_fails = False, backlog = [AcceptConn (two_lines_conn\<lparr>tx_fail := []\<rparr>)]\<rparr>)"
proof -
  have b: "two_lines_conn\<lparr>tx_fail := [True]\<rparr> = two_lines_conn"
    by (simp add: two_lines_conn_def)
  show ?thesis
    using echo_write_failure_ignored[where c = two_lines_conn and f = "[True]" and g = "[]" and q = "[]"]
    by (simp add: b two_lines_run)
qed

text \<open>
  Claim C10.  When the stream is \<open>body @ part\<close>, where \<open>body\<close> is the newline-terminated lines
  and \<open>part\<close> the bytes after the last newline, and the read then fails, the echo server writes
  back exactly \<open>body\<close>, line by line, each write ending in a newline, and prints exactly those
  lines: \<open>part\<close> is neither printed nor written.
\<close>

theorem echo_partial_line_discarded:
  assumes "listen_fails w = False" and "backlog w = AcceptConn c # q" and "rx_end c = Fails e"
    and "concat (rx c) = body @ part" and "body = [] \<or> last body = nl" and "nl \<notin> set part"
  shows "concat (writes (trace (echo_server_main w))) = body \<and>
         (\<forall>m\<in>set (writes (trace (echo_server_main w))). m \<noteq> [] \<and> last m = nl) \<and>
         prints (trace (echo_server_main w)) =
           [''Server listening on 127.0.0.1:5000'' @ [nl], ''Connected by '' @ remote c @ [nl]] @
           map (\<lambda>m. ''Received: '' @ m) (writes (trace (echo_server_main w))) \<and>
         (tx_fail c = [] \<longrightarrow> map_option tx (peer (echo_server_main w)) = Some (tx c @ body))"
proof -
  obtain st c' tr where l: "echo_loop (NewReader c) c = (st, c', tr)"
    by (metis prod.collapse)
  have p: "pending (NewReader c) = body @ part" using assms(4) by (simp add: NewReader_def)
  have e: "at_end (NewReader c) = Fails e" using assms(3) by (simp add: NewReader_def)
  from echo_loop_status[OF l] e have st: "st = Returned" by simp
  have b: "concat (writes tr) = body" by (rule echo_loop_body[OF l p assms(5,6)])
  from echo_loop_lines[OF l] have
    w: "\<forall>m\<in>set (writes tr). m \<noteq> [] \<and> last m = nl"
    and pr: "prints tr = map (\<lambda>m. ''Received: '' @ m) (writes tr)" by auto
  from echo_loop_tx[OF l] b have t: "tx_fail c = [] \<longrightarrow> tx c' = tx c @ body" by simp
  have m: "echo_server_main w =
      \<lparr>status = Returned,
       trace = [Stdout (''Server listening on 127.0.0.1:5000'' @ [nl]), EvAccept True,
                Stdout (''Connected by '' @ remote c @ [nl])] @ tr @
               [EvCloseConn, EvCloseListener],
       peer = Some c', waiting = q\<rparr>"
    using echo_server_main_conn[OF assms(1,2) l] st by simp
  have wt: "writes (trace (echo_server_main w)) = writes tr"
    unfolding m by (simp add: writes_append)
  have pt: "prints (trace (echo_server_main w)) =
      [''Server listening on 127.0.0.1:5000'' @ [nl], ''Connected by '' @ remote c @ [nl]] @ prints tr"
    unfolding m by (simp add: prints_append)
  show ?thesis unfolding wt pt using b w pr t m by simp
qed

theorem echo_partial_line_discarded_witness:
  "concat (rx two_lines_conn) = (''one'' @ [nl] @ ''two'' @ [nl]) @ ''thr'' \<and>
   writes (trace (echo_server_main \<lparr>listen_fails = False, backlog = [AcceptConn two_lines_conn]\<rparr>)) =
     [''one'' @ [nl], ''two'' @ [nl]] \<and>
   concat (writes (trace (echo_server_main \<lparr>listen_fails = False, backlog = [AcceptConn two_lines_conn]\<rparr>))) =
     ''one'' @ [nl] @ ''two'' @ [nl] \<and>
   prints (trace (echo_server_main \<lparr>listen_fails = False, backlog = [AcceptConn two_lines_conn]\<rparr>)) =
     [''Server listening on 127.0.0.1:5000'' @ [nl], ''Connected by 127.0.0.1:40000'' @ [nl],
      ''Received: one'' @ [nl], ''Received: two'' @ [nl]]"
  using echo_partial_line_discarded[of
      "\<lparr>listen_fails = False, backlog = [AcceptConn two_lines_conn]\<rparr>" two_lines_conn "[]" EOF
      "''one'' @ [nl] @ ''two'' @ [nl]" "''thr''"]
  by (simp add: two_lines_run) (simp add: two_lines_conn_def)
end
